theory Spec2Isabelle
  imports Complex_Main "HOL-Library.Multiset"
begin

section \<open>The predictive Sankey diagram: data model\<close>

text \<open>
  The component \<open>PredictiveSankeyDiagram\<close> draws a layered flow diagram inside one
  React effect and reacts to pointer events through inline d3 handlers. The embedding
  follows the effect body statement by statement.

  JavaScript numbers are idealised as reals: rounding and signed zeros are not modelled.
  Where the source leaves the finite numbers (a division by a zero \<open>maxValue\<close>), the
  model says so with \<open>None\<close>. Dereferencing \<open>undefined\<close> throws a \<open>TypeError\<close>,
  which aborts the effect; it is the only exception the effect can raise.

  Of a node only the fields that the layout, the colours and the handlers read are
  kept (\<open>id\<close>, \<open>layer\<close>, \<open>riskScore\<close>); \<open>name\<close>, \<open>type\<close>, \<open>count\<close> and
  \<open>future\<close> feed labels and strokes only.
\<close>

datatype error = TypeError

record node =
  node_id :: int
  layer :: int
  riskScore :: real

record link =
  source :: int
  target :: int
  link_value :: real

record canvas =
  canvas_width :: real
  canvas_height :: real
  margin_top :: real
  margin_right :: real
  margin_bottom :: real
  margin_left :: real

record position =
  pos_x :: real
  pos_y :: real
  pos_width :: real
  pos_height :: real
  pos_riskScore :: real

text \<open>The dataset and the canvas that the source hard-codes.\<close>

definition mk_node :: "int \<Rightarrow> int \<Rightarrow> real \<Rightarrow> node" where
  "mk_node i l r = \<lparr>node_id = i, layer = l, riskScore = r\<rparr>"

definition mk_link :: "int \<Rightarrow> int \<Rightarrow> real \<Rightarrow> link" where
  "mk_link s t v = \<lparr>source = s, target = t, link_value = v\<rparr>"

definition nodes_src :: "node list" where
  "nodes_src =
    [mk_node 0 0 0.321, mk_node 1 0 0.293, mk_node 2 0 0.264,
     mk_node 3 1 0.592, mk_node 4 1 0.324, mk_node 5 1 0.309,
     mk_node 6 2 0.282, mk_node 7 2 0.136, mk_node 8 2 0.114,
     mk_node 9 3 0.540, mk_node 10 3 0.065, mk_node 11 3 0.180,
     mk_node 12 4 0.85, mk_node 13 4 0.55, mk_node 14 4 0.25]"

definition links_src :: "link list" where
  "links_src =
    [mk_link 0 3 10, mk_link 0 4 80, mk_link 0 5 120,
     mk_link 1 3 120, mk_link 1 4 50, mk_link 1 5 80,
     mk_link 2 3 15, mk_link 2 4 220, mk_link 2 5 600,
     mk_link 3 6 100, mk_link 3 7 20, mk_link 3 8 5,
     mk_link 4 6 150, mk_link 4 7 120, mk_link 4 8 80,
     mk_link 5 6 400, mk_link 5 7 250, mk_link 5 8 50,
     mk_link 6 9 600, mk_link 6 10 300, mk_link 6 11 50,
     mk_link 7 9 200, mk_link 7 10 150, mk_link 7 11 20,
     mk_link 8 9 30, mk_link 8 10 100, mk_link 8 11 5,
     mk_link 9 12 450, mk_link 9 13 320, mk_link 9 14 60,
     mk_link 10 12 50, mk_link 10 13 280, mk_link 10 14 220,
     mk_link 11 12 30, mk_link 11 13 120, mk_link 11 14 65]"

definition canvas_src :: canvas where
  "canvas_src = \<lparr>canvas_width = 1500, canvas_height = 800, margin_top = 80,
     margin_right = 200, margin_bottom = 80, margin_left = 150\<rparr>"

section \<open>Colour scale\<close>

definition getRiskColor :: "real \<Rightarrow> string" where
  "getRiskColor score =
    (if score > 0.7 then ''#dc2626''
     else if score > 0.5 then ''#f97316''
     else if score > 0.3 then ''#eab308''
     else if score > 0.15 then ''#22c55e''
     else ''#16a34a'')"

text \<open>The legend table of the source: sample score, label and colour of each band.\<close>

definition legendData :: "(real \<times> string \<times> string) list" where
  "legendData =
    [(0.9, ''Very High Risk (>70%)'', ''#dc2626''),
     (0.6, ''High Risk (50-70%)'', ''#f97316''),
     (0.4, ''Medium Risk (30-50%)'', ''#eab308''),
     (0.2, ''Low Risk (15-30%)'', ''#22c55e''),
     (0.08, ''Very Low Risk (<15%)'', ''#16a34a'')]"

definition legend_colors :: "string list" where
  "legend_colors = map (\<lambda>(score, label, color). color) legendData"

section \<open>Layout\<close>

text \<open>
  \<open>nodes.forEach(node => layers[node.layer].push(node))\<close>: a layer outside the five
  buckets reads \<open>undefined\<close>, and \<open>undefined.push\<close> throws.
\<close>

fun push_layers :: "node list \<Rightarrow> node list list \<Rightarrow> error + node list list" where
  "push_layers [] layers = Inr layers"
| "push_layers (n # ns) layers =
    (if 0 \<le> layer n \<and> layer n < int (length layers)
     then push_layers ns (layers[nat (layer n) := layers ! nat (layer n) @ [n]])
     else Inl TypeError)"

definition layerWidth :: "canvas \<Rightarrow> real" where
  "layerWidth c = (canvas_width c - margin_left c - margin_right c) / 4"

definition layerHeight :: "canvas \<Rightarrow> real" where
  "layerHeight c = canvas_height c - margin_top c - margin_bottom c"

definition nodeHeight :: real where
  "nodeHeight = 45"

definition totalHeight :: "node list \<Rightarrow> real" where
  "totalHeight layer_nodes = real (length layer_nodes) * (nodeHeight + 15)"

definition startY :: "canvas \<Rightarrow> node list \<Rightarrow> real" where
  "startY c layer_nodes = margin_top c + (layerHeight c - totalHeight layer_nodes) / 2"

text \<open>
  For comparison, the start offset as the specification words it: the height of the
  stack is that of \<open>n\<close> nodes and of the \<open>n - 1\<close> gaps between them.
\<close>

definition spec_startY :: "canvas \<Rightarrow> nat \<Rightarrow> real" where
  "spec_startY c n = margin_top c + (layerHeight c - (real n * (nodeHeight + 15) - 15)) / 2"

definition node_position :: "canvas \<Rightarrow> nat \<Rightarrow> real \<Rightarrow> nat \<Rightarrow> node \<Rightarrow> position" where
  "node_position c layerIndex sy nodeIndex n =
    \<lparr>pos_x = margin_left c + real layerIndex * layerWidth c,
     pos_y = sy + real nodeIndex * (nodeHeight + 15),
     pos_width = 130,
     pos_height = nodeHeight,
     pos_riskScore = riskScore n\<rparr>"

text \<open>The inner \<open>layer.forEach((node, nodeIndex) => nodePositions[node.id] = ...)\<close>.\<close>

fun place_layer ::
  "canvas \<Rightarrow> nat \<Rightarrow> real \<Rightarrow> nat \<Rightarrow> node list \<Rightarrow> (int \<rightharpoonup> position) \<Rightarrow> (int \<rightharpoonup> position)" where
  "place_layer c layerIndex sy nodeIndex [] m = m"
| "place_layer c layerIndex sy nodeIndex (n # ns) m =
    place_layer c layerIndex sy (Suc nodeIndex) ns
      (m(node_id n \<mapsto> node_position c layerIndex sy nodeIndex n))"

text \<open>The outer \<open>layers.forEach((layer, layerIndex) => ...)\<close>.\<close>

fun place_layers ::
  "canvas \<Rightarrow> nat \<Rightarrow> node list list \<Rightarrow> (int \<rightharpoonup> position) \<Rightarrow> (int \<rightharpoonup> position)" where
  "place_layers c layerIndex [] m = m"
| "place_layers c layerIndex (l # ls) m =
    place_layers c (Suc layerIndex) ls (place_layer c layerIndex (startY c l) 0 l m)"

definition nodePositions :: "canvas \<Rightarrow> node list \<Rightarrow> error + (int \<rightharpoonup> position)" where
  "nodePositions c nodes =
    (case push_layers nodes [[], [], [], [], []] of
       Inl e \<Rightarrow> Inl e
     | Inr layers \<Rightarrow> Inr (place_layers c 0 layers Map.empty))"

section \<open>Link geometry\<close>

text \<open>
  \<open>Math.max(...xs)\<close>. With no argument the source yields \<open>-Infinity\<close>, which is
  \<open>None\<close> here.
\<close>

definition Math_max :: "real list \<Rightarrow> real option" where
  "Math_max xs = (case xs of [] \<Rightarrow> None | x # rest \<Rightarrow> Some (fold max rest x))"

text \<open>
  \<open>Math.max(2, (link.value / maxValue) * 25)\<close> with
  \<open>maxValue = Math.max(...links.map(l => l.value))\<close>. The result is \<open>None\<close> when it
  is not a finite number: dividing a positive value by a zero \<open>maxValue\<close> gives
  \<open>Infinity\<close> and dividing zero by zero gives \<open>NaN\<close>. A negative value over zero
  gives \<open>-Infinity\<close>, and any finite value over \<open>-Infinity\<close> gives zero; in both
  cases \<open>Math.max\<close> returns 2.
\<close>

definition linkHeight :: "link list \<Rightarrow> link \<Rightarrow> real option" where
  "linkHeight links l =
    (case Math_max (map link_value links) of
       None \<Rightarrow> Some 2
     | Some maxValue \<Rightarrow>
         if maxValue = 0 then (if link_value l < 0 then Some 2 else None)
         else Some (max 2 (link_value l / maxValue * 25)))"

text \<open>
  The largest value among the links of a dataset, in which the properties of the
  thickness are stated. \<open>Math_max\<close> computes it whenever there is a link.
\<close>

definition maxValue :: "link list \<Rightarrow> real" where
  "maxValue links = Max (link_value ` set links)"

datatype path_cmd =
    MoveTo real real
  | BezierCurveTo real real real real real real
  | LineTo real real
  | ClosePath

text \<open>The closed outline that the source builds with \<open>d3.path()\<close>.\<close>

definition ribbon :: "position \<Rightarrow> position \<Rightarrow> real \<Rightarrow> path_cmd list" where
  "ribbon sourcePos targetPos h =
    [MoveTo (pos_x sourcePos + pos_width sourcePos) (pos_y sourcePos + pos_height sourcePos / 2),
     BezierCurveTo
       (pos_x sourcePos + pos_width sourcePos + 40)
       (pos_y sourcePos + pos_height sourcePos / 2)
       (pos_x targetPos - 40)
       (pos_y targetPos + pos_height targetPos / 2)
       (pos_x targetPos)
       (pos_y targetPos + pos_height targetPos / 2),
     LineTo (pos_x targetPos) (pos_y targetPos + pos_height targetPos / 2 - h / 2),
     BezierCurveTo
       (pos_x targetPos - 40)
       (pos_y targetPos + pos_height targetPos / 2 - h / 2)
       (pos_x sourcePos + pos_width sourcePos + 40)
       (pos_y sourcePos + pos_height sourcePos / 2 - h / 2)
       (pos_x sourcePos + pos_width sourcePos)
       (pos_y sourcePos + pos_height sourcePos / 2 - h / 2),
     ClosePath]"

text \<open>
  The height of such an outline at its two ends: the length of the edge that closes it
  at the source node, and of the straight edge at the target node.
\<close>

definition end_point :: "path_cmd \<Rightarrow> (real \<times> real) option" where
  "end_point cmd =
    (case cmd of
       MoveTo x y \<Rightarrow> Some (x, y)
     | BezierCurveTo cx1 cy1 cx2 cy2 x y \<Rightarrow> Some (x, y)
     | LineTo x y \<Rightarrow> Some (x, y)
     | ClosePath \<Rightarrow> None)"

definition ribbon_heights :: "path_cmd list \<Rightarrow> (real \<times> real) option" where
  "ribbon_heights cmds =
    (case cmds of
       [start, lower, edge, upper, closing] \<Rightarrow>
         (case (end_point start, end_point lower, end_point edge, end_point upper) of
            (Some (x0, y0), Some (x1, y1), Some (x2, y2), Some (x3, y3)) \<Rightarrow>
              Some (y0 - y3, y1 - y2)
          | _ \<Rightarrow> None)
     | _ \<Rightarrow> None)"

text \<open>\<open>nodes[i]\<close>: the array element at index \<open>i\<close>, \<open>undefined\<close> out of range.\<close>

definition nodes_at :: "node list \<Rightarrow> int \<Rightarrow> node option" where
  "nodes_at nodes i = (if 0 \<le> i \<and> i < int (length nodes) then Some (nodes ! nat i) else None)"

record svg_path =
  path_d :: "path_cmd list option"
  path_fill :: string
  path_opacity :: real

text \<open>
  The body of \<open>links.forEach\<close> for one link. The positions are looked up by node id,
  the scores by array index. An outline with a coordinate that is not finite is
  \<open>None\<close>.
\<close>

definition drawLink ::
  "(int \<rightharpoonup> position) \<Rightarrow> node list \<Rightarrow> link list \<Rightarrow> link \<Rightarrow> error + svg_path" where
  "drawLink positions nodes links l =
    (case positions (source l) of
       None \<Rightarrow> Inl TypeError
     | Some sourcePos \<Rightarrow>
    (case positions (target l) of
       None \<Rightarrow> Inl TypeError
     | Some targetPos \<Rightarrow>
    (case nodes_at nodes (source l) of
       None \<Rightarrow> Inl TypeError
     | Some sourceNode \<Rightarrow>
    (case nodes_at nodes (target l) of
       None \<Rightarrow> Inl TypeError
     | Some targetNode \<Rightarrow>
         Inr \<lparr>path_d = map_option (ribbon sourcePos targetPos) (linkHeight links l),
              path_fill = getRiskColor ((riskScore sourceNode + riskScore targetNode) / 2),
              path_opacity = 0.25\<rparr>))))"

text \<open>
  For comparison, the fill when both scores are resolved through the node ids, as the
  positions are: every position carries the score of its node.
\<close>

definition fill_by_id :: "(int \<rightharpoonup> position) \<Rightarrow> link \<Rightarrow> string option" where
  "fill_by_id positions l =
    (case positions (source l) of
       None \<Rightarrow> None
     | Some sourcePos \<Rightarrow>
    (case positions (target l) of
       None \<Rightarrow> None
     | Some targetPos \<Rightarrow>
         Some (getRiskColor ((pos_riskScore sourcePos + pos_riskScore targetPos) / 2))))"

text \<open>Every node sits in the array at the index that its id names.\<close>

definition ids_are_indices :: "node list \<Rightarrow> bool" where
  "ids_are_indices nodes \<longleftrightarrow> map node_id nodes = map int [0..<length nodes]"

text \<open>A \<open>forEach\<close> whose body may throw: the first exception ends the loop.\<close>

fun mapE :: "('a \<Rightarrow> error + 'b) \<Rightarrow> 'a list \<Rightarrow> error + 'b list" where
  "mapE f [] = Inr []"
| "mapE f (x # xs) =
    (case f x of
       Inl e \<Rightarrow> Inl e
     | Inr y \<Rightarrow> (case mapE f xs of Inl e \<Rightarrow> Inl e | Inr ys \<Rightarrow> Inr (y # ys)))"

section \<open>The drawing and the effect\<close>

text \<open>
  Of the document only what the handlers touch is kept: the link
  outlines, the node groups with their rectangle, and the legend swatches. An absent
  \<open>opacity\<close> attribute (\<open>None\<close>) renders at full opacity. A node group carries the
  node and the \<open>selectedNode\<close> that its handlers closed over.
\<close>

record svg_rect =
  rect_width :: real
  rect_height :: real
  rect_fill :: string
  rect_opacity :: "real option"

record node_group =
  g_translate :: "real \<times> real"
  g_rect :: svg_rect
  g_node :: node
  g_selectedNode :: "int option"

record drawing =
  link_paths :: "svg_path list"
  node_groups :: "node_group list"
  legend_rects :: "svg_rect list"

text \<open>The outlines of a drawing, and their heights, in document order.\<close>

definition drawn_outlines :: "drawing \<Rightarrow> path_cmd list option list" where
  "drawn_outlines d = map path_d (link_paths d)"

definition drawn_heights :: "drawing \<Rightarrow> (real \<times> real) option option list" where
  "drawn_heights d = map (\<lambda>p. map_option ribbon_heights (path_d p)) (link_paths d)"

definition drawNode :: "(int \<rightharpoonup> position) \<Rightarrow> int option \<Rightarrow> node \<Rightarrow> error + node_group" where
  "drawNode positions sel n =
    (case positions (node_id n) of
       None \<Rightarrow> Inl TypeError
     | Some pos \<Rightarrow>
         Inr \<lparr>g_translate = (pos_x pos, pos_y pos),
              g_rect = \<lparr>rect_width = pos_width pos, rect_height = pos_height pos,
                        rect_fill = getRiskColor (riskScore n), rect_opacity = Some 0.85\<rparr>,
              g_node = n,
              g_selectedNode = sel\<rparr>)"

definition legend_rect :: "real \<times> string \<times> string \<Rightarrow> svg_rect" where
  "legend_rect item =
    (case item of (score, label, color) \<Rightarrow>
      \<lparr>rect_width = 15, rect_height = 15, rect_fill = color, rect_opacity = None\<rparr>)"

definition drawDiagram ::
  "canvas \<Rightarrow> node list \<Rightarrow> link list \<Rightarrow> int option \<Rightarrow> error + drawing" where
  "drawDiagram c nodes links sel =
    (case nodePositions c nodes of
       Inl e \<Rightarrow> Inl e
     | Inr positions \<Rightarrow>
    (case mapE (drawLink positions nodes links) links of
       Inl e \<Rightarrow> Inl e
     | Inr paths \<Rightarrow>
    (case mapE (drawNode positions sel) nodes of
       Inl e \<Rightarrow> Inl e
     | Inr groups \<Rightarrow>
         Inr \<lparr>link_paths = paths, node_groups = groups,
              legend_rects = map legend_rect legendData\<rparr>)))"

text \<open>
  The component: its two pieces of React state and the contents of the \<open>svg\<close>
  element. The effect removes whatever the element holds and draws anew; it runs on
  mount and whenever \<open>selectedNode\<close> has changed.
\<close>

record component =
  hoveredNode :: "int option"
  selectedNode :: "int option"
  svg :: drawing

definition run_effect ::
  "canvas \<Rightarrow> node list \<Rightarrow> link list \<Rightarrow> component \<Rightarrow> error + component" where
  "run_effect c nodes links w =
    (case drawDiagram c nodes links (selectedNode w) of
       Inl e \<Rightarrow> Inl e
     | Inr d \<Rightarrow> Inr (w\<lparr>svg := d\<rparr>))"

definition mount :: "canvas \<Rightarrow> node list \<Rightarrow> link list \<Rightarrow> error + component" where
  "mount c nodes links =
    run_effect c nodes links
      \<lparr>hoveredNode = None, selectedNode = None,
       svg = \<lparr>link_paths = [], node_groups = [], legend_rects = []\<rparr>\<rparr>"

text \<open>Where and how large each node is drawn, by node id, in document order.\<close>

definition rendered_positions :: "drawing \<Rightarrow> (int \<times> (real \<times> real) \<times> real \<times> real) list" where
  "rendered_positions d =
    map (\<lambda>g. (node_id (g_node g), g_translate g, rect_width (g_rect g), rect_height (g_rect g)))
      (node_groups d)"

text \<open>The same drawing with the handlers closed over another \<open>selectedNode\<close>.\<close>

definition recapture :: "int option \<Rightarrow> drawing \<Rightarrow> drawing" where
  "recapture s d = d\<lparr>node_groups := map (\<lambda>g. g\<lparr>g_selectedNode := s\<rparr>) (node_groups d)\<rparr>"

text \<open>
  What every run of the effect establishes and every handler keeps: the node groups
  stand for the nodes in order, their handlers have closed over the current
  \<open>selectedNode\<close>, and the legend shows the five band colours.
\<close>

definition consistent :: "node list \<Rightarrow> component \<Rightarrow> bool" where
  "consistent nodes w \<longleftrightarrow>
     map g_node (node_groups (svg w)) = nodes \<and>
     (\<forall>g\<in>set (node_groups (svg w)). g_selectedNode g = selectedNode w) \<and>
     map rect_fill (legend_rects (svg w)) = legend_colors"

section \<open>Pointer events\<close>

text \<open>An event names the element it hits by its place among its siblings.\<close>

datatype event =
    NodeMouseEnter nat
  | NodeMouseLeave nat
  | NodeClick nat
  | LinkMouseEnter nat
  | LinkMouseLeave nat

text \<open>\<open>d3.selectAll('rect').attr('opacity', v)\<close>: every rectangle of the document.\<close>

definition set_all_rects :: "real \<Rightarrow> drawing \<Rightarrow> drawing" where
  "set_all_rects v d =
    d\<lparr>node_groups := map (\<lambda>g. g\<lparr>g_rect := (g_rect g)\<lparr>rect_opacity := Some v\<rparr>\<rparr>) (node_groups d),
      legend_rects := map (\<lambda>r. r\<lparr>rect_opacity := Some v\<rparr>) (legend_rects d)\<rparr>"

text \<open>\<open>d3.select(this).select('rect').attr('opacity', v)\<close> in the handler of group \<open>k\<close>.\<close>

definition set_own_rect :: "nat \<Rightarrow> real \<Rightarrow> drawing \<Rightarrow> drawing" where
  "set_own_rect k v d =
    d\<lparr>node_groups :=
        (node_groups d)[k := (node_groups d ! k)\<lparr>g_rect := (g_rect (node_groups d ! k))\<lparr>rect_opacity := Some v\<rparr>\<rparr>]\<rparr>"

definition set_path_opacity :: "nat \<Rightarrow> real \<Rightarrow> drawing \<Rightarrow> drawing" where
  "set_path_opacity k v d =
    d\<lparr>link_paths := (link_paths d)[k := (link_paths d ! k)\<lparr>path_opacity := v\<rparr>]\<rparr>"

text \<open>
  React's state setter: an unchanged value is ignored; a changed \<open>selectedNode\<close>
  makes the effect run again.
\<close>

definition setSelectedNode ::
  "canvas \<Rightarrow> node list \<Rightarrow> link list \<Rightarrow> int option \<Rightarrow> component \<Rightarrow> error + component" where
  "setSelectedNode c nodes links v w =
    (if selectedNode w = v then Inr w else run_effect c nodes links (w\<lparr>selectedNode := v\<rparr>))"

definition setHoveredNode :: "int option \<Rightarrow> component \<Rightarrow> component" where
  "setHoveredNode v w = w\<lparr>hoveredNode := v\<rparr>"

text \<open>The handlers that the effect attaches. An event on no element has no handler.\<close>

fun handle ::
  "canvas \<Rightarrow> node list \<Rightarrow> link list \<Rightarrow> component \<Rightarrow> event \<Rightarrow> error + component" where
  "handle c nodes links w (NodeMouseEnter k) =
    (if k < length (node_groups (svg w))
     then Inr (setHoveredNode (Some (node_id (g_node (node_groups (svg w) ! k))))
                (w\<lparr>svg := set_own_rect k 1 (set_all_rects 0.3 (svg w))\<rparr>))
     else Inr w)"
| "handle c nodes links w (NodeMouseLeave k) =
    (if k < length (node_groups (svg w))
     then Inr (setHoveredNode None (w\<lparr>svg := set_all_rects 0.85 (svg w)\<rparr>))
     else Inr w)"
| "handle c nodes links w (NodeClick k) =
    (if k < length (node_groups (svg w))
     then (let g = node_groups (svg w) ! k in
           setSelectedNode c nodes links
             (if g_selectedNode g = Some (node_id (g_node g)) then None
              else Some (node_id (g_node g))) w)
     else Inr w)"
| "handle c nodes links w (LinkMouseEnter k) =
    (if k < length (link_paths (svg w))
     then Inr (w\<lparr>svg := set_path_opacity k 0.6 (svg w)\<rparr>)
     else Inr w)"
| "handle c nodes links w (LinkMouseLeave k) =
    (if k < length (link_paths (svg w))
     then Inr (w\<lparr>svg := set_path_opacity k 0.25 (svg w)\<rparr>)
     else Inr w)"

fun run_events ::
  "canvas \<Rightarrow> node list \<Rightarrow> link list \<Rightarrow> component \<Rightarrow> event list \<Rightarrow> error + component" where
  "run_events c nodes links w [] = Inr w"
| "run_events c nodes links w (ev # evs) =
    (case handle c nodes links w ev of
       Inl e \<Rightarrow> Inl e
     | Inr w' \<Rightarrow> run_events c nodes links w' evs)"

definition session :: "canvas \<Rightarrow> node list \<Rightarrow> link list \<Rightarrow> event list \<Rightarrow> error + component" where
  "session c nodes links evs =
    (case mount c nodes links of
       Inl e \<Rightarrow> Inl e
     | Inr w \<Rightarrow> run_events c nodes links w evs)"

section \<open>Datasets for the examples\<close>

text \<open>
  The end-to-end scenario of the specification: two nodes with scores 0.3 and 0.9
  joined by one link of value 100.
\<close>

definition nodes_demo :: "node list" where
  "nodes_demo = [mk_node 0 0 0.3, mk_node 1 1 0.9]"

definition links_demo :: "link list" where
  "links_demo = [mk_link 0 1 100]"

text \<open>
  A dataset whose nodes are not listed in the order of their ids: node 0 (score 0.1)
  feeds nodes 1 and 2 (score 0.9 each).
\<close>

definition nodes_reordered :: "node list" where
  "nodes_reordered = [mk_node 1 1 0.9, mk_node 2 1 0.9, mk_node 0 0 0.1]"

definition links_reordered :: "link list" where
  "links_reordered = [mk_link 0 1 100, mk_link 0 2 50]"

text \<open>The scenario above with the ids 10 and 11 in place of 0 and 1.\<close>

definition nodes_renumbered :: "node list" where
  "nodes_renumbered = [mk_node 10 0 0.3, mk_node 11 1 0.9]"

definition links_renumbered :: "link list" where
  "links_renumbered = [mk_link 10 11 100]"

section \<open>Unfolding the effect on a concrete dataset\<close>

lemmas eval_defs = mount_def run_effect_def drawDiagram_def nodePositions_def
  mk_node_def mk_link_def drawLink_def drawNode_def nodes_at_def session_def
  setSelectedNode_def setHoveredNode_def Let_def

section \<open>Colour scale: the five bands\<close>

text \<open>
  C1. Every real score gets the colour of exactly one of the five bands: above 0.7 the
  Very High colour, in (0.5, 0.7] the High colour, in (0.3, 0.5] the Medium colour, in
  (0.15, 0.3] the Low colour, and at or below 0.15 the Very Low colour. The five
  colours are those of the legend and pairwise different, and each of the boundary
  scores 0.15, 0.3, 0.5, 0.7 takes the colour of the lower band.
\<close>

theorem getRiskColor_bands:
  "(0.7 < s \<longrightarrow> getRiskColor s = ''#dc2626'') \<and>
   (0.5 < s \<and> s \<le> 0.7 \<longrightarrow> getRiskColor s = ''#f97316'') \<and>
   (0.3 < s \<and> s \<le> 0.5 \<longrightarrow> getRiskColor s = ''#eab308'') \<and>
   (0.15 < s \<and> s \<le> 0.3 \<longrightarrow> getRiskColor s = ''#22c55e'') \<and>
   (s \<le> 0.15 \<longrightarrow> getRiskColor s = ''#16a34a'') \<and>
   getRiskColor s \<in> set legend_colors \<and>
   legend_colors = [''#dc2626'', ''#f97316'', ''#eab308'', ''#22c55e'', ''#16a34a''] \<and>
   distinct legend_colors \<and>
   getRiskColor 0.7 = ''#f97316'' \<and> getRiskColor 0.5 = ''#eab308'' \<and>
   getRiskColor 0.3 = ''#22c55e'' \<and> getRiskColor 0.15 = ''#16a34a''"
  by (simp add: getRiskColor_def legend_colors_def legendData_def)

theorem getRiskColor_bands_witness:
  "(0.7::real) < 0.9 \<and> getRiskColor 0.9 = ''#dc2626'' \<and>
   (0.5::real) < 0.6 \<and> (0.6::real) \<le> 0.7 \<and> getRiskColor 0.6 = ''#f97316'' \<and>
   (0.3::real) < 0.4 \<and> (0.4::real) \<le> 0.5 \<and> getRiskColor 0.4 = ''#eab308'' \<and>
   (0.15::real) < 0.2 \<and> (0.2::real) \<le> 0.3 \<and> getRiskColor 0.2 = ''#22c55e'' \<and>
   (0.08::real) \<le> 0.15 \<and> getRiskColor 0.08 = ''#16a34a''"
  using getRiskColor_bands [of "0.9"] getRiskColor_bands [of "0.6"] getRiskColor_bands [of "0.4"]
    getRiskColor_bands [of "0.2"] getRiskColor_bands [of "0.08"]
  by simp

section \<open>Ribbon thickness\<close>

lemma Math_max_Max:
  assumes "xs \<noteq> []"
  shows "Math_max xs = Some (Max (set xs))"
proof (cases xs)
  case Nil
  with assms show ?thesis by simp
next
  case (Cons a rest)
  then show ?thesis
    using Max.set_eq_fold [of a rest] by (simp add: Math_max_def)
qed


lemma linkHeight_positive_max:
  assumes "l \<in> set links" and "0 < maxValue links"
  shows "linkHeight links l = Some (max 2 (link_value l / maxValue links * 25))"
proof -
  from assms(1) have ne: "map link_value links \<noteq> []" by auto
  have "Math_max (map link_value links) = Some (maxValue links)"
    using Math_max_Max [OF ne] by (simp add: maxValue_def)
  with assms(2) show ?thesis by (simp add: linkHeight_def)
qed

lemma value_le_maxValue: "l \<in> set links \<Longrightarrow> link_value l \<le> maxValue links"
  by (simp add: maxValue_def)

lemma maxValue_positive:
  assumes "l \<in> set links" and "0 < link_value l"
  shows "0 < maxValue links"
  using value_le_maxValue [OF assms(1)] assms(2) by linarith

lemma links_src_max: "maxValue links_src = 600"
  by (simp add: maxValue_def links_src_def mk_link_def)

text \<open>
  The number \<open>linkHeight\<close>. In a dataset whose largest link value \<open>maxValue\<close> is
  positive, it is \<open>max 2 (value / maxValue * 25)\<close> for every link. It lies between 2
  and 25, is exactly 25 for a link whose value is \<open>maxValue\<close>, and stays at 2 for
  every link whose value is at most \<open>2 / 25\<close> of \<open>maxValue\<close>.
\<close>

lemma linkHeight_thickness:
  assumes "l \<in> set links" and "0 < maxValue links"
  shows "linkHeight links l = Some (max 2 (link_value l / maxValue links * 25)) \<and>
     2 \<le> max 2 (link_value l / maxValue links * 25) \<and>
     max 2 (link_value l / maxValue links * 25) \<le> 25 \<and>
     (link_value l = maxValue links \<longrightarrow> linkHeight links l = Some 25) \<and>
     (link_value l \<le> 2 / 25 * maxValue links \<longrightarrow> linkHeight links l = Some 2)"
proof -
  have le: "link_value l \<le> maxValue links" by (rule value_le_maxValue [OF assms(1)])
  have eq: "linkHeight links l = Some (max 2 (link_value l / maxValue links * 25))"
    by (rule linkHeight_positive_max [OF assms])
  have ratio: "link_value l / maxValue links \<le> 1" using le assms(2) by simp
  have "link_value l / maxValue links * 25 \<le> 1 * 25"
    using ratio by (rule mult_right_mono) simp
  then have upper: "max 2 (link_value l / maxValue links * 25) \<le> 25" by simp
  have top: "link_value l = maxValue links \<longrightarrow> linkHeight links l = Some 25"
    using eq assms(2) by simp
  have small: "link_value l \<le> 2 / 25 * maxValue links \<longrightarrow> linkHeight links l = Some 2"
  proof
    assume "link_value l \<le> 2 / 25 * maxValue links"
    then have "link_value l / maxValue links * 25 \<le> 2"
      using assms(2) by (simp add: field_simps)
    then show "linkHeight links l = Some 2" using eq by (simp add: max_def)
  qed
  from eq upper top small show ?thesis by simp
qed

text \<open>
  C7. Thickness is monotonic in the value: of two links of one dataset (largest value
  positive), the one with the larger value is at least as thick.
\<close>

theorem linkHeight_monotonic:
  assumes "a \<in> set links" and "b \<in> set links" and "0 < maxValue links"
    and "link_value a > link_value b"
  shows "\<exists>ta tb. linkHeight links a = Some ta \<and> linkHeight links b = Some tb \<and> tb \<le> ta"
proof -
  have "link_value b / maxValue links * 25 \<le> link_value a / maxValue links * 25"
    using assms(3,4) by (simp add: divide_right_mono)
  then have "max 2 (link_value b / maxValue links * 25)
      \<le> max 2 (link_value a / maxValue links * 25)"
    by (simp add: max_def)
  then show ?thesis
    using linkHeight_positive_max [OF assms(1,3)] linkHeight_positive_max [OF assms(2,3)]
    by simp
qed

theorem linkHeight_monotonic_witness:
  "mk_link 0 5 120 \<in> set links_src \<and> mk_link 0 4 80 \<in> set links_src \<and>
   0 < maxValue links_src \<and>
   link_value (mk_link 0 5 120) > link_value (mk_link 0 4 80) \<and>
   (\<exists>ta tb. linkHeight links_src (mk_link 0 5 120) = Some ta \<and>
      linkHeight links_src (mk_link 0 4 80) = Some tb \<and> tb \<le> ta)"
proof -
  have m1: "mk_link 0 5 120 \<in> set links_src" by (simp add: links_src_def)
  have m2: "mk_link 0 4 80 \<in> set links_src" by (simp add: links_src_def)
  have p: "0 < maxValue links_src" by (simp add: links_src_max)
  have gt: "link_value (mk_link 0 5 120) > link_value (mk_link 0 4 80)" by (simp add: mk_link_def)
  show ?thesis
    using linkHeight_monotonic [OF m1 m2 p gt] m1 m2 p gt by blast
qed

text \<open>
  Positive link values, the invariant of the data model, make the largest value
  positive. Without it the thickness is not monotonic: with the values -1 and -100
  the largest value is -1, and the link of value -100 is the thicker one.
\<close>

lemma positive_values_maxValue:
  assumes "l \<in> set links" and "\<forall>k\<in>set links. 0 < link_value k"
  shows "0 < maxValue links"
  using maxValue_positive [OF assms(1)] assms by blast

lemma negative_values_not_monotonic:
  "linkHeight [mk_link 0 1 (- 1), mk_link 0 2 (- 100)] (mk_link 0 1 (- 1)) = Some 25 \<and>
   linkHeight [mk_link 0 1 (- 1), mk_link 0 2 (- 100)] (mk_link 0 2 (- 100)) = Some 2500"
  by (simp add: linkHeight_def Math_max_def mk_link_def)

text \<open>
  What is drawn from \<open>linkHeight\<close>: the first curve of the outline runs through the
  vertical midpoints of the two nodes, and the second curve is the first one moved up
  by \<open>linkHeight / 2\<close>.
\<close>

lemma ribbon_heights_ribbon: "ribbon_heights (ribbon sourcePos targetPos h) = Some (h / 2, h / 2)"
  by (simp add: ribbon_heights_def ribbon_def end_point_def)

lemma ribbon_shifted_copy:
  "\<exists>x0 y0 cx1 cy1 cx2 cy2 x1 y1.
     ribbon sourcePos targetPos h =
       [MoveTo x0 y0,
        BezierCurveTo cx1 cy1 cx2 cy2 x1 y1,
        LineTo x1 (y1 - h / 2),
        BezierCurveTo cx2 (cy2 - h / 2) cx1 (cy1 - h / 2) x0 (y0 - h / 2),
        ClosePath]"
  by (simp add: ribbon_def)

lemma drawn_src:
  "map_sum id (\<lambda>d. (drawn_outlines d ! 8, drawn_heights d ! 8, drawn_heights d ! 0))
     (drawDiagram canvas_src nodes_src links_src None)
   = Inr (Some [MoveTo 280 (905 / 2),
                BezierCurveTo 320 (905 / 2) (795 / 2) (905 / 2) (875 / 2) (905 / 2),
                LineTo (875 / 2) 440,
                BezierCurveTo (795 / 2) 440 320 440 280 440,
                ClosePath],
          Some (Some (25 / 2, 25 / 2)), Some (Some (1, 1)))"
  by (simp add: eval_defs nodes_src_def links_src_def linkHeight_def Math_max_def
      ribbon_heights_ribbon drawn_heights_def drawn_outlines_def canvas_src_def
      startY_def layerHeight_def layerWidth_def totalHeight_def nodeHeight_def
      node_position_def ribbon_def ribbon_heights_def end_point_def)

lemma linkHeight_src:
  "link_value (links_src ! 8) = maxValue links_src \<and>
   linkHeight links_src (links_src ! 8) = Some 25 \<and>
   linkHeight links_src (links_src ! 0) = Some 2"
proof -
  have v: "link_value (links_src ! 8) = 600" by (simp add: links_src_def mk_link_def)
  have h: "linkHeight links_src (links_src ! 8) = Some 25 \<and>
     linkHeight links_src (links_src ! 0) = Some 2"
    by (simp add: links_src_def mk_link_def linkHeight_def Math_max_def)
  from v h links_src_max show ?thesis by simp
qed

text \<open>
  C2. The thickness of a ribbon. The source computes \<open>linkHeight\<close> as
  \<open>max 2 (value / maxValue * 25)\<close>, but the outline that it draws is
  \<open>linkHeight / 2\<close> high: at both ends, and all along, since its second curve is the
  first one moved by \<open>linkHeight / 2\<close>. In the source's own dataset the link from
  node 2 to node 5 has the largest value, 600, and \<open>linkHeight\<close> 25; it is drawn
  between y = 452.5 and y = 440, 12.5 high and not 25. The link of value 10 has
  \<open>linkHeight\<close> 2 and is drawn 1 high.
\<close>

theorem ribbon_drawn_at_half_linkHeight:
  "ribbon_heights (ribbon sourcePos targetPos h) = Some (h / 2, h / 2) \<and>
   (\<exists>x0 y0 cx1 cy1 cx2 cy2 x1 y1.
     ribbon sourcePos targetPos h =
       [MoveTo x0 y0,
        BezierCurveTo cx1 cy1 cx2 cy2 x1 y1,
        LineTo x1 (y1 - h / 2),
        BezierCurveTo cx2 (cy2 - h / 2) cx1 (cy1 - h / 2) x0 (y0 - h / 2),
        ClosePath]) \<and>
   link_value (links_src ! 8) = maxValue links_src \<and>
   linkHeight links_src (links_src ! 8) = Some 25 \<and>
   linkHeight links_src (links_src ! 0) = Some 2 \<and>
   map_sum id (\<lambda>d. (drawn_outlines d ! 8, drawn_heights d ! 8, drawn_heights d ! 0))
     (drawDiagram canvas_src nodes_src links_src None)
   = Inr (Some [MoveTo 280 (905 / 2),
                BezierCurveTo 320 (905 / 2) (795 / 2) (905 / 2) (875 / 2) (905 / 2),
                LineTo (875 / 2) 440,
                BezierCurveTo (795 / 2) 440 320 440 280 440,
                ClosePath],
          Some (Some (25 / 2, 25 / 2)), Some (Some (1, 1)))"
  using ribbon_heights_ribbon ribbon_shifted_copy linkHeight_src drawn_src by blast

section \<open>Layout\<close>

lemma concat_update_snoc:
  "i < length ls \<Longrightarrow> set (concat (ls[i := ls ! i @ [n]])) = insert n (set (concat ls))"
proof (induction ls arbitrary: i)
  case Nil
  then show ?case by simp
next
  case (Cons l ls)
  then show ?case by (cases i) auto
qed

lemma push_layers_nodes:
  "push_layers ns ls = Inr ls' \<Longrightarrow> set (concat ls') = set (concat ls) \<union> set ns"
proof (induction ns arbitrary: ls)
  case Nil
  then show ?case by simp
next
  case (Cons n ns)
  from Cons.prems have rng: "0 \<le> layer n" "nat (layer n) < length ls"
    by (auto split: if_splits)
  from Cons.prems rng have "push_layers ns (ls[nat (layer n) := ls ! nat (layer n) @ [n]]) = Inr ls'"
    by (simp split: if_splits)
  from Cons.IH [OF this] concat_update_snoc [OF rng(2), of n] show ?case by simp
qed

lemma dom_place_layer:
  "dom (place_layer c li sy ni ns m) = dom m \<union> node_id ` set ns"
  by (induction ns arbitrary: m ni) auto

lemma dom_place_layers:
  "dom (place_layers c li ls m) = dom m \<union> node_id ` set (concat ls)"
  by (induction ls arbitrary: m li) (auto simp: dom_place_layer)

lemma nodePositions_dom:
  assumes "nodePositions c nodes = Inr positions"
  shows "dom positions = node_id ` set nodes"
proof -
  from assms obtain ls where p: "push_layers nodes [[], [], [], [], []] = Inr ls"
    and m: "positions = place_layers c 0 ls Map.empty"
    by (auto simp: nodePositions_def split: sum.splits)
  from push_layers_nodes [OF p] have "set (concat ls) = set nodes" by simp
  with m show ?thesis by (simp add: dom_place_layers)
qed

lemma startY_spec: "startY c layer_nodes = spec_startY c (length layer_nodes) - 15 / 2"
  by (simp add: startY_def spec_startY_def totalHeight_def field_simps)

lemma nodePositions_src:
  "map_sum id (\<lambda>m. map (\<lambda>i. map_option pos_y (m i)) [0, 1, 2]) (nodePositions canvas_src nodes_src)
     = Inr [Some 310, Some 370, Some 430]"
  by (simp add: nodePositions_def nodes_src_def mk_node_def canvas_src_def startY_def
      layerHeight_def totalHeight_def nodeHeight_def node_position_def)

text \<open>
  The buckets: bucket \<open>i\<close> receives the nodes of layer \<open>i\<close> in the order of the
  dataset, and together the buckets hold the nodes of the dataset, each once.
\<close>

lemma mset_concat_update_snoc:
  "i < length ls \<Longrightarrow> mset (concat (ls[i := ls ! i @ [n]])) = add_mset n (mset (concat ls))"
proof (induction ls arbitrary: i)
  case Nil
  then show ?case by simp
next
  case (Cons l ls)
  then show ?case by (cases i) simp_all
qed

lemma push_layers_mset:
  "push_layers ns ls = Inr ls' \<Longrightarrow> mset (concat ls') = mset (concat ls) + mset ns"
proof (induction ns arbitrary: ls)
  case Nil
  then show ?case by simp
next
  case (Cons n ns)
  from Cons.prems have rng: "0 \<le> layer n" "nat (layer n) < length ls"
    by (auto split: if_splits)
  from Cons.prems rng have "push_layers ns (ls[nat (layer n) := ls ! nat (layer n) @ [n]]) = Inr ls'"
    by (simp split: if_splits)
  from Cons.IH [OF this] mset_concat_update_snoc [OF rng(2), of n] show ?case by simp
qed

lemma push_layers_buckets:
  "push_layers ns ls = Inr ls' \<Longrightarrow>
     length ls' = length ls \<and>
     (\<forall>n\<in>set ns. 0 \<le> layer n \<and> layer n < int (length ls)) \<and>
     (\<forall>i<length ls. ls' ! i = ls ! i @ filter (\<lambda>n. layer n = int i) ns)"
proof (induction ns arbitrary: ls)
  case Nil
  then show ?case by simp
next
  case (Cons n ns)
  let ?ls1 = "ls[nat (layer n) := ls ! nat (layer n) @ [n]]"
  from Cons.prems have rng: "0 \<le> layer n" "layer n < int (length ls)"
    by (auto split: if_splits)
  from Cons.prems rng have p: "push_layers ns ?ls1 = Inr ls'"
    by (simp split: if_splits)
  from Cons.IH [OF p] have len: "length ls' = length ls"
    and inr: "\<forall>n\<in>set ns. 0 \<le> layer n \<and> layer n < int (length ls)"
    and ih: "\<forall>i<length ls. ls' ! i = ?ls1 ! i @ filter (\<lambda>n. layer n = int i) ns"
    by simp_all
  have "ls' ! i = ls ! i @ filter (\<lambda>n. layer n = int i) (n # ns)" if i: "i < length ls" for i
  proof -
    from ih i have step: "ls' ! i = ?ls1 ! i @ filter (\<lambda>n. layer n = int i) ns" by blast
    show ?thesis
    proof (cases "i = nat (layer n)")
      case True
      have upd: "?ls1 ! i = ls ! i @ [n]" using i by (simp add: True)
      have "layer n = int i" using rng(1) by (simp add: True)
      then have "filter (\<lambda>x. layer x = int i) (n # ns) = n # filter (\<lambda>x. layer x = int i) ns"
        by simp
      with step upd show ?thesis by simp
    next
      case False
      then have upd: "?ls1 ! i = ls ! i" by simp
      from False rng(1) have "layer n \<noteq> int i" by auto
      then have "filter (\<lambda>x. layer x = int i) (n # ns) = filter (\<lambda>x. layer x = int i) ns"
        by simp
      with step upd show ?thesis by simp
    qed
  qed
  then have b: "\<forall>i<length ls. ls' ! i = ls ! i @ filter (\<lambda>n. layer n = int i) (n # ns)"
    by blast
  have r: "\<forall>x\<in>set (n # ns). 0 \<le> layer x \<and> layer x < int (length ls)"
    using inr rng by simp
  from len r b show ?case by blast
qed

text \<open>
  The position of a node whose id no other node has: its layer gives the column, its
  place among the nodes of its layer the row.
\<close>

lemma place_layer_other:
  "i \<notin> node_id ` set ns \<Longrightarrow> place_layer c li sy ni ns m i = m i"
  by (induction ns arbitrary: m ni) auto

lemma place_layer_lookup:
  "distinct (map node_id ns) \<Longrightarrow> k < length ns \<Longrightarrow>
     place_layer c li sy ni ns m (node_id (ns ! k)) = Some (node_position c li sy (ni + k) (ns ! k))"
proof (induction ns arbitrary: m ni k)
  case Nil
  then show ?case by simp
next
  case (Cons n ns)
  show ?case
  proof (cases k)
    case 0
    from Cons.prems(1) have "node_id n \<notin> node_id ` set ns" by simp
    with 0 show ?thesis by (simp add: place_layer_other)
  next
    case (Suc k')
    with Cons.prems have d: "distinct (map node_id ns)" and k': "k' < length ns" by simp_all
    from Cons.IH [OF d k'] Suc show ?thesis by simp
  qed
qed

lemma place_layers_other:
  "i \<notin> node_id ` set (concat ls) \<Longrightarrow> place_layers c li ls m i = m i"
proof (induction ls arbitrary: m li)
  case Nil
  then show ?case by simp
next
  case (Cons l ls)
  from Cons.prems have a: "i \<notin> node_id ` set l" and b: "i \<notin> node_id ` set (concat ls)"
    by auto
  from Cons.IH [OF b] place_layer_other [OF a] show ?case by simp
qed

lemma place_layers_lookup:
  "distinct (map node_id (concat ls)) \<Longrightarrow> j < length ls \<Longrightarrow> k < length (ls ! j) \<Longrightarrow>
     place_layers c li ls m (node_id (ls ! j ! k))
       = Some (node_position c (li + j) (startY c (ls ! j)) k (ls ! j ! k))"
proof (induction ls arbitrary: m li j)
  case Nil
  then show ?case by simp
next
  case (Cons l ls)
  from Cons.prems(1) have dl: "distinct (map node_id l)" and dls: "distinct (map node_id (concat ls))"
    and disj: "node_id ` set l \<inter> node_id ` set (concat ls) = {}"
    by auto
  show ?case
  proof (cases j)
    case 0
    with Cons.prems(3) have k: "k < length l" by simp
    then have "node_id (l ! k) \<in> node_id ` set l" by simp
    with disj have "node_id (l ! k) \<notin> node_id ` set (concat ls)" by blast
    with 0 k dl show ?thesis
      by (simp add: place_layers_other place_layer_lookup)
  next
    case (Suc j')
    with Cons.prems have j': "j' < length ls" and k: "k < length (ls ! j')" by simp_all
    from Cons.IH [OF dls j' k] Suc show ?thesis by simp
  qed
qed

lemma nodePositions_lookup:
  assumes "nodePositions c nodes = Inr positions" and "distinct (map node_id nodes)"
    and "k < length (filter (\<lambda>x. layer x = layer n) nodes)"
    and "filter (\<lambda>x. layer x = layer n) nodes ! k = n"
  shows "positions (node_id n)
    = Some (node_position c (nat (layer n)) (startY c (filter (\<lambda>x. layer x = layer n) nodes)) k n)"
proof -
  let ?sib = "filter (\<lambda>x. layer x = layer n) nodes"
  from assms(1) obtain ls where p: "push_layers nodes [[], [], [], [], []] = Inr ls"
    and m: "positions = place_layers c 0 ls Map.empty"
    by (auto simp: nodePositions_def split: sum.splits)
  from assms(3,4) have "n \<in> set ?sib" using nth_mem by fastforce
  then have n: "n \<in> set nodes" by simp
  have e: "[[], [], [], [], []] = replicate 5 ([]::node list)"
    by (simp add: eval_nat_numeral)
  from push_layers_buckets [OF p] have len: "length ls = 5"
    and rng: "\<forall>n\<in>set nodes. 0 \<le> layer n \<and> layer n < 5"
    and buckets: "\<forall>i<5. ls ! i = filter (\<lambda>n. layer n = int i) nodes"
    unfolding e by simp_all
  from rng n have r: "0 \<le> layer n" "nat (layer n) < 5" by auto
  with buckets have sib: "ls ! nat (layer n) = ?sib" by simp
  from push_layers_mset [OF p] have "mset (concat ls) = mset nodes" by simp
  then have "mset (map node_id (concat ls)) = mset (map node_id nodes)" by (metis mset_map)
  with assms(2) have d: "distinct (map node_id (concat ls))"
    using mset_eq_imp_distinct_iff by blast
  from place_layers_lookup [OF d, of "nat (layer n)" k c 0 Map.empty] len r sib assms(3,4) m
  show ?thesis by simp
qed

lemma layer_stack_positions:
  assumes "nodePositions c nodes = Inr positions" and "distinct (map node_id nodes)"
    and "siblings = filter (\<lambda>x. layer x = li) nodes" and "k < length siblings"
  shows "map_option (\<lambda>p. (pos_x p, pos_y p)) (positions (node_id (siblings ! k)))
    = Some (margin_left c + real (nat li) * layerWidth c,
            spec_startY c (length siblings) - 15 / 2 + real k * 60)"
proof -
  let ?n = "siblings ! k"
  from assms(4) have "?n \<in> set siblings" by (rule nth_mem)
  then have li: "layer ?n = li" by (simp add: assms(3))
  with assms(3) have sib: "filter (\<lambda>x. layer x = layer ?n) nodes = siblings" by simp
  from nodePositions_lookup [OF assms(1,2), of k ?n] sib assms(4) li
  show ?thesis by (simp add: node_position_def startY_spec nodeHeight_def)
qed

text \<open>
  C3. The start offset of a layer with \<open>count\<close> nodes. The source takes the height
  of the stack to be \<open>count * (nodeHeight + 15)\<close>, one gap more than the nodes and
  the gaps between them occupy. So the offset is 7.5 less than
  \<open>margin.top + (layerHeight - (count * (nodeHeight + gap) - gap)) / 2\<close>, and the room
  left under the stack is 15 more than the room left above it: the stack is not
  centred. In the source's own dataset the three nodes of the first layer are put at
  310, 370 and 430, where the centred offset is 317.5. (By \<open>layer_stack_positions\<close>
  the nodes of every layer start at this offset, 60 apart.)
\<close>

theorem startY_keeps_trailing_gap:
  "startY c layer_nodes = spec_startY c (length layer_nodes) - 15 / 2 \<and>
   (margin_top c + layerHeight c - (startY c layer_nodes + totalHeight layer_nodes - 15))
     - (startY c layer_nodes - margin_top c) = 15 \<and>
   map_sum id (\<lambda>m. map (\<lambda>i. map_option pos_y (m i)) [0, 1, 2])
     (nodePositions canvas_src nodes_src) = Inr [Some 310, Some 370, Some 430] \<and>
   spec_startY canvas_src 3 = 635 / 2"
proof -
  have gap: "(margin_top c + layerHeight c - (startY c layer_nodes + totalHeight layer_nodes - 15))
     - (startY c layer_nodes - margin_top c) = 15"
    by (simp add: startY_def field_simps)
  have "spec_startY canvas_src 3 = 635 / 2"
    by (simp add: spec_startY_def canvas_src_def layerHeight_def nodeHeight_def)
  with startY_spec gap nodePositions_src show ?thesis by simp
qed

section \<open>Links that name no node\<close>

lemma mapE_Inr_each:
  "mapE f xs = Inr ys \<Longrightarrow> x \<in> set xs \<Longrightarrow> \<exists>y. f x = Inr y"
  by (induction xs arbitrary: ys) (auto split: sum.splits)

lemma drawLink_Inr_resolved:
  "drawLink positions nodes links l = Inr p \<Longrightarrow> source l \<in> dom positions \<and> target l \<in> dom positions"
  by (auto simp: drawLink_def split: option.splits)

lemma error_is_TypeError: "(e::error) = TypeError"
  by (cases e) simp

lemma drawDiagram_dangling:
  assumes "l \<in> set links"
    and "source l \<notin> node_id ` set nodes \<or> target l \<notin> node_id ` set nodes"
  shows "drawDiagram c nodes links sel = Inl TypeError"
proof (cases "drawDiagram c nodes links sel")
  case (Inl e)
  then show ?thesis using error_is_TypeError [of e] by simp
next
  case (Inr d)
  then obtain positions paths where pos: "nodePositions c nodes = Inr positions"
    and ps: "mapE (drawLink positions nodes links) links = Inr paths"
    by (auto simp: drawDiagram_def split: sum.splits)
  from mapE_Inr_each [OF ps assms(1)] obtain p where "drawLink positions nodes links l = Inr p"
    by blast
  from drawLink_Inr_resolved [OF this] nodePositions_dom [OF pos] assms(2)
  show ?thesis by blast
qed

text \<open>
  C9. A dataset with a link whose source or target is the id of no node is never
  drawn. Once the layout is computed, the position of the missing endpoint is
  unresolved and drawing this link throws; so the effect ends with a \<open>TypeError\<close>
  on mount, whatever else the dataset holds, the link is neither dropped nor given a
  default position, and no event is ever handled.
\<close>

theorem dangling_link_fails:
  assumes "l \<in> set links"
    and "source l \<notin> node_id ` set nodes \<or> target l \<notin> node_id ` set nodes"
  shows "drawDiagram c nodes links sel = Inl TypeError \<and>
    mount c nodes links = Inl TypeError \<and>
    session c nodes links evs = Inl TypeError \<and>
    (\<forall>positions. nodePositions c nodes = Inr positions \<longrightarrow>
       (positions (source l) = None \<or> positions (target l) = None) \<and>
       drawLink positions nodes links l = Inl TypeError)"
proof -
  have "(positions (source l) = None \<or> positions (target l) = None) \<and>
       drawLink positions nodes links l = Inl TypeError"
    if pos: "nodePositions c nodes = Inr positions" for positions
  proof -
    from nodePositions_dom [OF pos] assms(2)
    have "source l \<notin> dom positions \<or> target l \<notin> dom positions" by simp
    then have unresolved: "positions (source l) = None \<or> positions (target l) = None"
      by (auto simp: dom_def)
    then have "drawLink positions nodes links l = Inl TypeError"
      by (auto simp: drawLink_def split: option.splits)
    with unresolved show ?thesis by simp
  qed
  with drawDiagram_dangling [OF assms] show ?thesis
    by (simp add: mount_def run_effect_def session_def)
qed

theorem dangling_link_fails_witness:
  "mk_link 0 7 100 \<in> set [mk_link 0 7 100] \<and>
   target (mk_link 0 7 100) \<notin> node_id ` set nodes_demo \<and>
   drawDiagram canvas_src nodes_demo [mk_link 0 7 100] None = Inl TypeError \<and>
   mount canvas_src nodes_demo [mk_link 0 7 100] = Inl TypeError"
proof -
  have m: "mk_link 0 7 100 \<in> set [mk_link 0 7 100]" by simp
  have t: "target (mk_link 0 7 100) \<notin> node_id ` set nodes_demo"
    by (simp add: nodes_demo_def mk_node_def mk_link_def)
  then have d: "source (mk_link 0 7 100) \<notin> node_id ` set nodes_demo \<or>
    target (mk_link 0 7 100) \<notin> node_id ` set nodes_demo" by simp
  from dangling_link_fails [OF m d, of canvas_src None "[]"] m t show ?thesis by blast
qed

text \<open>
  The failure is not a report of the link. The effect ends with the same bare
  \<open>TypeError\<close> on a dataset whose only defect is a node in a layer that does not
  exist, with no link at all, and on a dataset all of whose links name nodes that
  exist; the source has no check of the dataset and no message of its own.
\<close>

theorem failure_names_no_link_counterexample:
  "target (mk_link 0 7 100) \<notin> node_id ` set nodes_demo \<and>
   mount canvas_src nodes_demo [mk_link 0 7 100] = Inl TypeError \<and>
   mount canvas_src [mk_node 0 9 0.3] [] = Inl TypeError \<and>
   source (links_renumbered ! 0) \<in> node_id ` set nodes_renumbered \<and>
   target (links_renumbered ! 0) \<in> node_id ` set nodes_renumbered \<and>
   mount canvas_src nodes_renumbered links_renumbered = Inl TypeError"
  by (simp add: eval_defs nodes_demo_def nodes_renumbered_def links_renumbered_def)

section \<open>Fill colour of a link\<close>

lemma place_layer_origin:
  assumes "\<forall>i p. m i = Some p \<longrightarrow> (\<exists>n\<in>S. node_id n = i \<and> pos_riskScore p = riskScore n)"
    and "set ns \<subseteq> S"
  shows "\<forall>i p. place_layer c li sy ni ns m i = Some p \<longrightarrow>
    (\<exists>n\<in>S. node_id n = i \<and> pos_riskScore p = riskScore n)"
  using assms
proof (induction ns arbitrary: m ni)
  case Nil
  then show ?case by simp
next
  case (Cons n ns)
  have step: "\<forall>i p. (m(node_id n \<mapsto> node_position c li sy ni n)) i = Some p \<longrightarrow>
    (\<exists>n\<in>S. node_id n = i \<and> pos_riskScore p = riskScore n)"
    using Cons.prems by (auto simp: node_position_def)
  have rest: "set ns \<subseteq> S" using Cons.prems by simp
  from Cons.IH [of "m(node_id n \<mapsto> node_position c li sy ni n)" "Suc ni", OF step rest]
  show ?case by (simp only: place_layer.simps)
qed

lemma place_layers_origin:
  assumes "\<forall>i p. m i = Some p \<longrightarrow> (\<exists>n\<in>S. node_id n = i \<and> pos_riskScore p = riskScore n)"
    and "set (concat ls) \<subseteq> S"
  shows "\<forall>i p. place_layers c li ls m i = Some p \<longrightarrow>
    (\<exists>n\<in>S. node_id n = i \<and> pos_riskScore p = riskScore n)"
  using assms
proof (induction ls arbitrary: m li)
  case Nil
  then show ?case by simp
next
  case (Cons l ls)
  have sub: "set l \<subseteq> S" using Cons.prems by simp
  have step: "\<forall>i p. place_layer c li (startY c l) 0 l m i = Some p \<longrightarrow>
    (\<exists>n\<in>S. node_id n = i \<and> pos_riskScore p = riskScore n)"
    by (rule place_layer_origin [OF Cons.prems(1) sub])
  have rest: "set (concat ls) \<subseteq> S" using Cons.prems by simp
  from Cons.IH [of "place_layer c li (startY c l) 0 l m" "Suc li", OF step rest]
  show ?case by (simp only: place_layers.simps)
qed

lemma nodePositions_origin:
  assumes "nodePositions c nodes = Inr positions" and "positions i = Some p"
  shows "\<exists>n\<in>set nodes. node_id n = i \<and> pos_riskScore p = riskScore n"
proof -
  from assms(1) obtain ls where ps: "push_layers nodes [[], [], [], [], []] = Inr ls"
    and m: "positions = place_layers c 0 ls Map.empty"
    by (auto simp: nodePositions_def split: sum.splits)
  from push_layers_nodes [OF ps] have "set (concat ls) \<subseteq> set nodes" by simp
  then have "\<forall>i p. place_layers c 0 ls Map.empty i = Some p \<longrightarrow>
    (\<exists>n\<in>set nodes. node_id n = i \<and> pos_riskScore p = riskScore n)"
    by (intro place_layers_origin) simp_all
  with m assms(2) show ?thesis by simp
qed

lemma ids_are_indices_nth:
  assumes "ids_are_indices nodes" and "j < length nodes"
  shows "node_id (nodes ! j) = int j"
proof -
  from assms(1) have "map node_id nodes ! j = map int [0..<length nodes] ! j"
    by (simp add: ids_are_indices_def)
  with assms(2) show ?thesis by simp
qed

lemma aligned_score:
  assumes "ids_are_indices nodes" and "nodePositions c nodes = Inr positions"
    and "positions i = Some p" and "nodes_at nodes i = Some n"
  shows "pos_riskScore p = riskScore n"
proof -
  from assms(4) have i: "0 \<le> i" "nat i < length nodes" and n: "n = nodes ! nat i"
    by (auto simp: nodes_at_def split: if_splits)
  from nodePositions_origin [OF assms(2,3)] obtain n' where n': "n' \<in> set nodes"
    "node_id n' = i" "pos_riskScore p = riskScore n'" by blast
  from n'(1) obtain j where j: "j < length nodes" "n' = nodes ! j"
    by (auto simp: in_set_conv_nth)
  from ids_are_indices_nth [OF assms(1) j(1)] j(2) n'(2) have "int j = i" by simp
  then have "j = nat i" by simp
  with j(2) n n'(3) show ?thesis by simp
qed

text \<open>
  Where every node sits at the index that its id names, as in the source's dataset,
  reading the scores by index and reading them by id agree.
\<close>

lemma link_fill_when_ids_are_indices:
  assumes "ids_are_indices nodes" and "nodePositions c nodes = Inr positions"
    and "drawLink positions nodes links l = Inr p"
  shows "fill_by_id positions l = Some (path_fill p)"
proof -
  from assms(3) obtain sp tp sn tn where
    sp: "positions (source l) = Some sp" and tp: "positions (target l) = Some tp" and
    sn: "nodes_at nodes (source l) = Some sn" and tn: "nodes_at nodes (target l) = Some tn" and
    fill: "path_fill p = getRiskColor ((riskScore sn + riskScore tn) / 2)"
    by (auto simp: drawLink_def split: option.splits)
  from aligned_score [OF assms(1,2) sp sn] aligned_score [OF assms(1,2) tp tn] sp tp fill
  show ?thesis by (simp add: fill_by_id_def)
qed


text \<open>
  Where the nodes are listed in another order than that of their ids, the two readings
  part: the link from node 0 (score 0.1) to node 1 (score 0.9) is filled with the
  Very High colour of the two nodes at indices 0 and 1, not with the Medium colour of
  the average 0.5; and with the ids 10 and 11 the scenario is not drawn at all, since
  index 10 is out of range.
\<close>

lemma link_fill_by_array_index:
  "map_sum id (map path_fill \<circ> link_paths)
     (drawDiagram canvas_src nodes_reordered links_reordered None) = Inr [''#dc2626'', ''#eab308''] \<and>
   map_sum id (\<lambda>m. map (fill_by_id m) links_reordered)
     (nodePositions canvas_src nodes_reordered) = Inr [Some ''#eab308'', Some ''#eab308''] \<and>
   drawDiagram canvas_src nodes_renumbered links_renumbered None = Inl TypeError \<and>
   map_sum id (\<lambda>m. map (fill_by_id m) links_renumbered)
     (nodePositions canvas_src nodes_renumbered) = Inr [Some ''#f97316'']"
  by (simp add: eval_defs nodes_reordered_def links_reordered_def nodes_renumbered_def
      links_renumbered_def fill_by_id_def getRiskColor_def node_position_def)










section \<open>Running the effect again\<close>

lemma drawNode_recapture:
  "map_sum id (\<lambda>g. g\<lparr>g_selectedNode := s\<rparr>) (drawNode positions s1 n) = drawNode positions s n"
  by (simp add: drawNode_def split: option.splits)

lemma mapE_drawNode_recapture:
  "map_sum id (map (\<lambda>g. g\<lparr>g_selectedNode := s\<rparr>)) (mapE (drawNode positions s1) ns)
     = mapE (drawNode positions s) ns"
proof (induction ns)
  case Nil
  then show ?case by simp
next
  case (Cons n ns)
  show ?case
    using Cons.IH drawNode_recapture [of s positions s1 n]
    by (cases "drawNode positions s1 n"; cases "mapE (drawNode positions s1) ns")
       (auto split: sum.splits)
qed

lemma drawDiagram_recapture:
  "map_sum id (recapture s) (drawDiagram c nodes links s1) = drawDiagram c nodes links s"
proof (cases "nodePositions c nodes")
  case (Inl e)
  then show ?thesis by (simp add: drawDiagram_def)
next
  case pos: (Inr positions)
  show ?thesis
  proof (cases "mapE (drawLink positions nodes links) links")
    case (Inl e)
    with pos show ?thesis by (simp add: drawDiagram_def)
  next
    case (Inr paths)
    with pos show ?thesis
      using mapE_drawNode_recapture [of s positions s1 nodes]
      by (cases "mapE (drawNode positions s1) nodes")
         (auto simp: drawDiagram_def recapture_def split: sum.splits)
  qed
qed

lemma rendered_positions_recapture: "rendered_positions (recapture s d) = rendered_positions d"
  by (simp add: rendered_positions_def recapture_def comp_def)

lemma rendered_positions_drawDiagram:
  "map_sum id rendered_positions (drawDiagram c nodes links s1)
     = map_sum id rendered_positions (drawDiagram c nodes links s2)"
proof -
  have "map_sum id rendered_positions (drawDiagram c nodes links s2)
      = map_sum id rendered_positions (map_sum id (recapture s2) (drawDiagram c nodes links s1))"
    by (simp add: drawDiagram_recapture)
  also have "\<dots> = map_sum id rendered_positions (drawDiagram c nodes links s1)"
    by (cases "drawDiagram c nodes links s1") (simp_all add: rendered_positions_recapture)
  finally show ?thesis by simp
qed

text \<open>Every node group is drawn where the layout has put its node.\<close>

lemma mapE_drawNode_positions:
  "mapE (drawNode positions s) ns = Inr gs \<Longrightarrow>
     map (\<lambda>g. Some (node_id (g_node g), g_translate g, rect_width (g_rect g), rect_height (g_rect g))) gs
       = map (\<lambda>n. map_option (\<lambda>p. (node_id n, (pos_x p, pos_y p), pos_width p, pos_height p))
                (positions (node_id n))) ns"
proof (induction ns arbitrary: gs)
  case Nil
  then show ?case by simp
next
  case (Cons n ns)
  from Cons.prems obtain g gs' where g: "drawNode positions s n = Inr g"
    and gs': "mapE (drawNode positions s) ns = Inr gs'" and eq: "gs = g # gs'"
    by (auto split: sum.splits)
  from g have "Some (node_id (g_node g), g_translate g, rect_width (g_rect g), rect_height (g_rect g))
     = map_option (\<lambda>p. (node_id n, (pos_x p, pos_y p), pos_width p, pos_height p))
                (positions (node_id n))"
    by (auto simp: drawNode_def split: option.splits)
  with Cons.IH [OF gs'] eq show ?case by simp
qed

lemma rendered_positions_layout:
  assumes "drawDiagram c nodes links s = Inr d"
  shows "\<exists>positions. nodePositions c nodes = Inr positions \<and>
    map Some (rendered_positions d)
      = map (\<lambda>n. map_option (\<lambda>p. (node_id n, (pos_x p, pos_y p), pos_width p, pos_height p))
                (positions (node_id n))) nodes"
proof -
  from assms obtain positions paths gs where pos: "nodePositions c nodes = Inr positions"
    and gs: "mapE (drawNode positions s) nodes = Inr gs"
    and d: "d = \<lparr>link_paths = paths, node_groups = gs, legend_rects = map legend_rect legendData\<rparr>"
    by (auto simp: drawDiagram_def split: sum.splits)
  from mapE_drawNode_positions [OF gs] d pos show ?thesis
    by (simp add: rendered_positions_def comp_def)
qed

text \<open>
  C6. The layout is a function of the dataset and the canvas alone. Whatever state
  the component is in when the effect runs (hover, selection, an earlier drawing),
  every node id is drawn at the same place with the same size; running the effect on
  its own result changes nothing; and the effect leaves hover and selection as they
  were.
\<close>

theorem layout_deterministic:
  "map_sum id (rendered_positions \<circ> svg) (run_effect c nodes links w1)
     = map_sum id (rendered_positions \<circ> svg) (run_effect c nodes links w2) \<and>
   (case run_effect c nodes links w of
      Inl e \<Rightarrow> Inl e
    | Inr w' \<Rightarrow> run_effect c nodes links w') = run_effect c nodes links w \<and>
   map_sum id (\<lambda>w'. (hoveredNode w', selectedNode w')) (run_effect c nodes links w)
     = map_sum id (\<lambda>w'. (hoveredNode w, selectedNode w)) (run_effect c nodes links w)"
proof (intro conjI)
  show "map_sum id (rendered_positions \<circ> svg) (run_effect c nodes links w1)
     = map_sum id (rendered_positions \<circ> svg) (run_effect c nodes links w2)"
    using rendered_positions_drawDiagram [of c nodes links "selectedNode w1" "selectedNode w2"]
    by (cases "drawDiagram c nodes links (selectedNode w1)";
        cases "drawDiagram c nodes links (selectedNode w2)")
       (simp_all add: run_effect_def)
next
  show "(case run_effect c nodes links w of
      Inl e \<Rightarrow> Inl e
    | Inr w' \<Rightarrow> run_effect c nodes links w') = run_effect c nodes links w"
    by (cases "drawDiagram c nodes links (selectedNode w)") (simp_all add: run_effect_def)
next
  show "map_sum id (\<lambda>w'. (hoveredNode w', selectedNode w')) (run_effect c nodes links w)
     = map_sum id (\<lambda>w'. (hoveredNode w, selectedNode w)) (run_effect c nodes links w)"
    by (cases "drawDiagram c nodes links (selectedNode w)") (simp_all add: run_effect_def)
qed

section \<open>Pointer events\<close>

lemma mapE_drawNode_groups:
  "mapE (drawNode positions s) ns = Inr gs \<Longrightarrow>
     map g_node gs = ns \<and> (\<forall>g\<in>set gs. g_selectedNode g = s)"
proof (induction ns arbitrary: gs)
  case Nil
  then show ?case by simp
next
  case (Cons n ns)
  from Cons.prems obtain g gs' where g: "drawNode positions s n = Inr g"
    and gs': "mapE (drawNode positions s) ns = Inr gs'" and eq: "gs = g # gs'"
    by (auto split: sum.splits)
  from g have "g_node g = n \<and> g_selectedNode g = s"
    by (auto simp: drawNode_def split: option.splits)
  with Cons.IH [OF gs'] eq show ?case by simp
qed

lemma drawDiagram_groups:
  assumes "drawDiagram c nodes links s = Inr d"
  shows "map g_node (node_groups d) = nodes"
    and "\<forall>g\<in>set (node_groups d). g_selectedNode g = s"
    and "legend_rects d = map legend_rect legendData"
    and "map rect_fill (legend_rects d) = legend_colors"
proof -
  have lc: "map rect_fill (map legend_rect legendData) = legend_colors"
    by (simp add: legend_colors_def legendData_def legend_rect_def)
  from assms obtain positions paths gs where
    gs: "mapE (drawNode positions s) nodes = Inr gs" and
    d: "d = \<lparr>link_paths = paths, node_groups = gs, legend_rects = map legend_rect legendData\<rparr>"
    by (auto simp: drawDiagram_def split: sum.splits)
  from mapE_drawNode_groups [OF gs] d lc
  show "map g_node (node_groups d) = nodes"
    and "\<forall>g\<in>set (node_groups d). g_selectedNode g = s"
    and "legend_rects d = map legend_rect legendData"
    and "map rect_fill (legend_rects d) = legend_colors"
    by simp_all
qed

lemma run_effect_Inr:
  assumes "run_effect c nodes links w = Inr w'"
  shows "consistent nodes w'" and "selectedNode w' = selectedNode w"
    and "hoveredNode w' = hoveredNode w"
    and "legend_rects (svg w') = map legend_rect legendData"
proof -
  from assms obtain d where d: "drawDiagram c nodes links (selectedNode w) = Inr d"
    and w': "w' = w\<lparr>svg := d\<rparr>"
    by (auto simp: run_effect_def split: sum.splits)
  from drawDiagram_groups [OF d] w'
  show "consistent nodes w'" and "selectedNode w' = selectedNode w"
    and "hoveredNode w' = hoveredNode w"
    and "legend_rects (svg w') = map legend_rect legendData"
    by (simp_all add: consistent_def)
qed

lemma mount_ok_run_effect:
  assumes "mount c nodes links \<noteq> Inl TypeError"
  shows "\<exists>w'. run_effect c nodes links w = Inr w'"
proof -
  from assms obtain d0 where "drawDiagram c nodes links None = Inr d0"
    using error_is_TypeError
    by (cases "drawDiagram c nodes links None") (auto simp: mount_def run_effect_def)
  with drawDiagram_recapture [of "selectedNode w" c nodes links None]
  have "drawDiagram c nodes links (selectedNode w) = Inr (recapture (selectedNode w) d0)"
    by simp
  then show ?thesis by (simp add: run_effect_def)
qed

lemma consistent_length: "consistent nodes w \<Longrightarrow> length (node_groups (svg w)) = length nodes"
  by (auto simp: consistent_def dest: arg_cong [where f = length])

lemma consistent_nth:
  assumes "consistent nodes w" and "k < length nodes"
  shows "g_node (node_groups (svg w) ! k) = nodes ! k"
    and "g_selectedNode (node_groups (svg w) ! k) = selectedNode w"
proof -
  have len: "k < length (node_groups (svg w))" using assms consistent_length by simp
  from assms(1) have "map g_node (node_groups (svg w)) ! k = nodes ! k"
    by (simp add: consistent_def)
  with len show "g_node (node_groups (svg w) ! k) = nodes ! k" by simp
  from assms(1) len show "g_selectedNode (node_groups (svg w) ! k) = selectedNode w"
    by (simp add: consistent_def)
qed

lemma consistent_set_all_rects:
  "consistent nodes w \<Longrightarrow> consistent nodes (w\<lparr>svg := set_all_rects v (svg w)\<rparr>)"
  by (simp add: consistent_def set_all_rects_def comp_def)

lemma consistent_set_own_rect:
  assumes "consistent nodes w"
  shows "consistent nodes (w\<lparr>svg := set_own_rect k v (svg w)\<rparr>)"
proof -
  let ?gs = "node_groups (svg w)"
  let ?g = "(?gs ! k)\<lparr>g_rect := (g_rect (?gs ! k))\<lparr>rect_opacity := Some v\<rparr>\<rparr>"
  have m: "map g_node (?gs[k := ?g]) = map g_node ?gs"
  proof (cases "k < length ?gs")
    case True
    then show ?thesis by (simp add: map_update list_update_same_conv)
  next
    case False
    then show ?thesis by (simp add: list_update_beyond)
  qed
  have s: "\<forall>g\<in>set (?gs[k := ?g]). g_selectedNode g = selectedNode w"
  proof
    fix g assume "g \<in> set (?gs[k := ?g])"
    then have "g \<in> insert ?g (set ?gs)" using set_update_subset_insert by fast
    moreover have "k < length ?gs \<Longrightarrow> g_selectedNode ?g = selectedNode w"
      using assms by (simp add: consistent_def)
    moreover have "\<not> k < length ?gs \<Longrightarrow> ?gs[k := ?g] = ?gs" by (simp add: list_update_beyond)
    ultimately show "g_selectedNode g = selectedNode w"
      using assms \<open>g \<in> set (?gs[k := ?g])\<close> by (cases "k < length ?gs") (auto simp: consistent_def)
  qed
  from m s assms show ?thesis by (simp add: consistent_def set_own_rect_def)
qed

lemma consistent_set_path_opacity:
  "consistent nodes w \<Longrightarrow> consistent nodes (w\<lparr>svg := set_path_opacity k v (svg w)\<rparr>)"
  by (simp add: consistent_def set_path_opacity_def)

lemma consistent_setHoveredNode:
  "consistent nodes w \<Longrightarrow> consistent nodes (setHoveredNode v w)"
  by (simp add: consistent_def setHoveredNode_def)

lemma setSelectedNode_ok:
  assumes "mount c nodes links \<noteq> Inl TypeError" and "consistent nodes w"
  shows "\<exists>w'. setSelectedNode c nodes links v w = Inr w' \<and> consistent nodes w' \<and>
     selectedNode w' = v \<and> hoveredNode w' = hoveredNode w"
proof (cases "selectedNode w = v")
  case True
  with assms(2) show ?thesis by (simp add: setSelectedNode_def)
next
  case False
  from mount_ok_run_effect [OF assms(1)] obtain w'
    where r: "run_effect c nodes links (w\<lparr>selectedNode := v\<rparr>) = Inr w'" by blast
  from run_effect_Inr(1,2,3) [OF r] False r show ?thesis by (simp add: setSelectedNode_def)
qed

lemma handle_ok:
  assumes "mount c nodes links \<noteq> Inl TypeError" and "consistent nodes w"
  shows "\<exists>w'. handle c nodes links w ev = Inr w' \<and> consistent nodes w'"
proof (cases ev)
  case (NodeMouseEnter k)
  with assms(2) show ?thesis
    using consistent_setHoveredNode consistent_set_own_rect [OF consistent_set_all_rects [OF assms(2)], of k 1 "0.3"]
    by (simp add: consistent_setHoveredNode)
next
  case (NodeMouseLeave k)
  with assms(2) show ?thesis
    by (simp add: consistent_setHoveredNode consistent_set_all_rects)
next
  case (NodeClick k)
  with assms show ?thesis
    using setSelectedNode_ok [OF assms] by (auto simp: Let_def)
next
  case (LinkMouseEnter k)
  with assms(2) show ?thesis by (simp add: consistent_set_path_opacity)
next
  case (LinkMouseLeave k)
  with assms(2) show ?thesis by (simp add: consistent_set_path_opacity)
qed

lemma run_events_ok:
  assumes "mount c nodes links \<noteq> Inl TypeError"
  shows "consistent nodes w \<Longrightarrow> \<exists>w'. run_events c nodes links w evs = Inr w' \<and> consistent nodes w'"
proof (induction evs arbitrary: w)
  case Nil
  then show ?case by simp
next
  case (Cons ev evs)
  from handle_ok [OF assms Cons.prems] obtain w1
    where h: "handle c nodes links w ev = Inr w1" and c1: "consistent nodes w1" by blast
  from Cons.IH [OF c1] h show ?case by simp
qed

lemma session_ok:
  assumes "mount c nodes links \<noteq> Inl TypeError"
  shows "\<exists>w. session c nodes links evs = Inr w \<and> consistent nodes w"
proof -
  from assms obtain w0 where m: "mount c nodes links = Inr w0"
    using error_is_TypeError by (cases "mount c nodes links") auto
  then have "consistent nodes w0" by (simp add: mount_def run_effect_Inr(1))
  from run_events_ok [OF assms this] m show ?thesis by (simp add: session_def)
qed

lemma click_toggles:
  assumes "mount c nodes links \<noteq> Inl TypeError" and "consistent nodes w" and "k < length nodes"
  shows "\<exists>w'. handle c nodes links w (NodeClick k) = Inr w' \<and> consistent nodes w' \<and>
     hoveredNode w' = hoveredNode w \<and>
     selectedNode w' = (if selectedNode w = Some (node_id (nodes ! k)) then None
                        else Some (node_id (nodes ! k)))"
proof -
  let ?v = "if selectedNode w = Some (node_id (nodes ! k)) then None
            else Some (node_id (nodes ! k))"
  have "handle c nodes links w (NodeClick k) = setSelectedNode c nodes links ?v w"
    using consistent_nth [OF assms(2,3)] consistent_length [OF assms(2)] assms(3)
    by (simp add: Let_def)
  with setSelectedNode_ok [OF assms(1,2), of ?v] show ?thesis by auto
qed

lemma mount_demo: "mount canvas_src nodes_demo links_demo \<noteq> Inl TypeError"
  by (simp add: mount_def run_effect_def drawDiagram_def nodePositions_def nodes_demo_def
      links_demo_def mk_node_def mk_link_def drawLink_def drawNode_def nodes_at_def)

lemma length_nodes_demo: "0 < length nodes_demo" "1 < length nodes_demo"
  by (simp_all add: nodes_demo_def)

text \<open>
  C5. In every state that the component reaches, a click on the node with id \<open>X\<close>
  clears the selection if \<open>X\<close> was selected and selects \<open>X\<close> otherwise. Hence two
  clicks in a row on the same node leave the selection empty when the node was not
  selected at the start, and leave the node selected when it was.
\<close>

theorem click_toggles_selection:
  assumes "mount c nodes links \<noteq> Inl TypeError" and "k < length nodes"
  shows "\<exists>w w1 w2. session c nodes links evs = Inr w \<and>
     handle c nodes links w (NodeClick k) = Inr w1 \<and>
     selectedNode w1 = (if selectedNode w = Some (node_id (nodes ! k)) then None
                        else Some (node_id (nodes ! k))) \<and>
     handle c nodes links w1 (NodeClick k) = Inr w2 \<and>
     selectedNode w2 = (if selectedNode w = Some (node_id (nodes ! k))
                        then Some (node_id (nodes ! k)) else None)"
proof -
  from session_ok [OF assms(1)] obtain w
    where s: "session c nodes links evs = Inr w" and c: "consistent nodes w" by blast
  from click_toggles [OF assms(1) c assms(2)] obtain w1
    where h1: "handle c nodes links w (NodeClick k) = Inr w1" and c1: "consistent nodes w1"
      and s1: "selectedNode w1 = (if selectedNode w = Some (node_id (nodes ! k)) then None
                        else Some (node_id (nodes ! k)))" by blast
  from click_toggles [OF assms(1) c1 assms(2)] obtain w2
    where h2: "handle c nodes links w1 (NodeClick k) = Inr w2"
      and s2: "selectedNode w2 = (if selectedNode w1 = Some (node_id (nodes ! k)) then None
                        else Some (node_id (nodes ! k)))" by blast
  from s h1 s1 h2 s2 show ?thesis by auto
qed

theorem click_toggles_selection_witness:
  "mount canvas_src nodes_demo links_demo \<noteq> Inl TypeError \<and> 0 < length nodes_demo \<and>
   (\<exists>w w1 w2. session canvas_src nodes_demo links_demo [NodeClick 1] = Inr w \<and>
     handle canvas_src nodes_demo links_demo w (NodeClick 0) = Inr w1 \<and>
     selectedNode w1 = (if selectedNode w = Some (node_id (nodes_demo ! 0)) then None
                        else Some (node_id (nodes_demo ! 0))) \<and>
     handle canvas_src nodes_demo links_demo w1 (NodeClick 0) = Inr w2 \<and>
     selectedNode w2 = (if selectedNode w = Some (node_id (nodes_demo ! 0))
                        then Some (node_id (nodes_demo ! 0)) else None))"
  using click_toggles_selection [OF mount_demo length_nodes_demo(1), of "[NodeClick 1]"]
    mount_demo length_nodes_demo(1)
  by blast

text \<open>
  Two clicks do not empty the selection from every state: once node 0 is selected,
  two more clicks on it leave it selected.
\<close>

theorem double_click_counterexample:
  "map_sum id selectedNode (session canvas_src nodes_demo links_demo [NodeClick 0]) = Inr (Some 0) \<and>
   map_sum id selectedNode
     (session canvas_src nodes_demo links_demo [NodeClick 0, NodeClick 0, NodeClick 0]) = Inr (Some 0)"
  by (simp add: eval_defs nodes_demo_def links_demo_def)

text \<open>
  C8. The hover state holds at most one node id (it is an \<open>int option\<close>). In every
  state that the component reaches, a pointer entering a node sets it to the id of
  that node, whatever it held; a pointer leaving a node clears it; and clicks and
  pointer events on links leave it as it is.
\<close>

theorem hover_tracks_pointer:
  assumes "mount c nodes links \<noteq> Inl TypeError" and "k < length nodes"
  shows "\<exists>w. session c nodes links evs = Inr w \<and>
     (\<exists>w'. handle c nodes links w (NodeMouseEnter k) = Inr w' \<and>
        hoveredNode w' = Some (node_id (nodes ! k))) \<and>
     (\<exists>w'. handle c nodes links w (NodeMouseLeave k) = Inr w' \<and> hoveredNode w' = None) \<and>
     (\<forall>j. \<exists>w'. handle c nodes links w (NodeClick j) = Inr w' \<and> hoveredNode w' = hoveredNode w) \<and>
     (\<forall>j. \<exists>w'. handle c nodes links w (LinkMouseEnter j) = Inr w' \<and> hoveredNode w' = hoveredNode w) \<and>
     (\<forall>j. \<exists>w'. handle c nodes links w (LinkMouseLeave j) = Inr w' \<and> hoveredNode w' = hoveredNode w)"
proof -
  from session_ok [OF assms(1)] obtain w
    where s: "session c nodes links evs = Inr w" and c: "consistent nodes w" by blast
  have len: "length (node_groups (svg w)) = length nodes" by (rule consistent_length [OF c])
  have enter: "\<exists>w'. handle c nodes links w (NodeMouseEnter k) = Inr w' \<and>
        hoveredNode w' = Some (node_id (nodes ! k))"
    using assms(2) len consistent_nth(1) [OF c assms(2)] by (simp add: setHoveredNode_def)
  have leave: "\<exists>w'. handle c nodes links w (NodeMouseLeave k) = Inr w' \<and> hoveredNode w' = None"
    using assms(2) len by (simp add: setHoveredNode_def)
  have click: "\<exists>w'. handle c nodes links w (NodeClick j) = Inr w' \<and> hoveredNode w' = hoveredNode w" for j
  proof (cases "j < length nodes")
    case True
    from click_toggles [OF assms(1) c True] show ?thesis by blast
  next
    case False
    with len show ?thesis by simp
  qed
  have lenter: "\<exists>w'. handle c nodes links w (LinkMouseEnter j) = Inr w' \<and> hoveredNode w' = hoveredNode w" for j
    by simp
  have lleave: "\<exists>w'. handle c nodes links w (LinkMouseLeave j) = Inr w' \<and> hoveredNode w' = hoveredNode w" for j
    by simp
  from s enter leave click lenter lleave show ?thesis by blast
qed

theorem hover_tracks_pointer_witness:
  "mount canvas_src nodes_demo links_demo \<noteq> Inl TypeError \<and> 1 < length nodes_demo \<and>
   (\<exists>w. session canvas_src nodes_demo links_demo [NodeMouseEnter 0] = Inr w \<and>
     (\<exists>w'. handle canvas_src nodes_demo links_demo w (NodeMouseEnter 1) = Inr w' \<and>
        hoveredNode w' = Some (node_id (nodes_demo ! 1))))"
  using hover_tracks_pointer [OF mount_demo length_nodes_demo(2), of "[NodeMouseEnter 0]"]
    mount_demo length_nodes_demo(2)
  by blast

lemma legend_after_set_all:
  "map (\<lambda>r. (rect_fill r, rect_opacity r)) (legend_rects (set_all_rects v d))
     = map (\<lambda>r. (rect_fill r, Some v)) (legend_rects d)"
  by (simp add: set_all_rects_def comp_def)

lemma legend_after_set_own: "legend_rects (set_own_rect k v d) = legend_rects d"
  by (simp add: set_own_rect_def)

lemma nodes_after_set_all:
  "map (rect_opacity \<circ> g_rect) (node_groups (set_all_rects v d))
     = replicate (length (node_groups d)) (Some v)"
  by (simp add: set_all_rects_def comp_def map_replicate_const)

lemma nodes_after_set_own:
  assumes "k < length (node_groups d)"
  shows "map (rect_opacity \<circ> g_rect) (node_groups (set_own_rect k v d))
     = (map (rect_opacity \<circ> g_rect) (node_groups d))[k := Some v]"
  using assms by (simp add: set_own_rect_def map_update)

lemma length_set_all_rects: "length (node_groups (set_all_rects v d)) = length (node_groups d)"
  by (simp add: set_all_rects_def)

lemma consistent_legend:
  "consistent nodes w \<Longrightarrow>
     map (\<lambda>r. (rect_fill r, x)) (legend_rects (svg w)) = map (\<lambda>col. (col, x)) legend_colors"
proof -
  assume "consistent nodes w"
  then have "map rect_fill (legend_rects (svg w)) = legend_colors" by (simp add: consistent_def)
  then have "map (\<lambda>col. (col, x)) (map rect_fill (legend_rects (svg w))) = map (\<lambda>col. (col, x)) legend_colors"
    by simp
  then show ?thesis by (simp add: comp_def)
qed

text \<open>
  C10. On mount the five legend swatches carry no opacity. In every state that the
  component reaches, a pointer entering a node sets every rectangle, the five legend
  swatches included, to 0.3 and the rectangle of the entered node to 1; the pointer
  leaving sets every rectangle to 0.85. So after the first hover the legend swatches
  are drawn at 0.85.
\<close>

theorem hover_dims_every_rect:
  assumes "mount c nodes links \<noteq> Inl TypeError" and "k < length nodes"
  shows "\<exists>w0 w w1 w2.
     mount c nodes links = Inr w0 \<and>
     map (\<lambda>r. (rect_fill r, rect_opacity r)) (legend_rects (svg w0))
       = map (\<lambda>col. (col, None)) legend_colors \<and>
     session c nodes links evs = Inr w \<and>
     handle c nodes links w (NodeMouseEnter k) = Inr w1 \<and>
     map (\<lambda>r. (rect_fill r, rect_opacity r)) (legend_rects (svg w1))
       = map (\<lambda>col. (col, Some 0.3)) legend_colors \<and>
     map (rect_opacity \<circ> g_rect) (node_groups (svg w1))
       = (replicate (length nodes) (Some 0.3))[k := Some 1] \<and>
     handle c nodes links w1 (NodeMouseLeave k) = Inr w2 \<and>
     map (\<lambda>r. (rect_fill r, rect_opacity r)) (legend_rects (svg w2))
       = map (\<lambda>col. (col, Some 0.85)) legend_colors \<and>
     map (rect_opacity \<circ> g_rect) (node_groups (svg w2))
       = replicate (length nodes) (Some 0.85)"
proof -
  from assms(1) obtain w0 where m: "mount c nodes links = Inr w0"
    using error_is_TypeError by (cases "mount c nodes links") auto
  then have "legend_rects (svg w0) = map legend_rect legendData"
    by (simp add: mount_def run_effect_Inr(4))
  then have l0: "map (\<lambda>r. (rect_fill r, rect_opacity r)) (legend_rects (svg w0))
       = map (\<lambda>col. (col, None)) legend_colors"
    by (simp add: legend_colors_def legendData_def legend_rect_def)
  from session_ok [OF assms(1)] obtain w
    where s: "session c nodes links evs = Inr w" and c: "consistent nodes w" by blast
  have len: "length (node_groups (svg w)) = length nodes" by (rule consistent_length [OF c])
  define w1 where "w1 = setHoveredNode (Some (node_id (g_node (node_groups (svg w) ! k))))
                (w\<lparr>svg := set_own_rect k 1 (set_all_rects 0.3 (svg w))\<rparr>)"
  have h1: "handle c nodes links w (NodeMouseEnter k) = Inr w1"
    using assms(2) len by (simp add: w1_def)
  have svg1: "svg w1 = set_own_rect k 1 (set_all_rects 0.3 (svg w))"
    by (simp add: w1_def setHoveredNode_def)
  have l1: "map (\<lambda>r. (rect_fill r, rect_opacity r)) (legend_rects (svg w1))
       = map (\<lambda>col. (col, Some 0.3)) legend_colors"
    using consistent_legend [OF c, of "Some (0.3::real)"]
    by (simp add: svg1 legend_after_set_own legend_after_set_all)
  have n1: "map (rect_opacity \<circ> g_rect) (node_groups (svg w1))
       = (replicate (length nodes) (Some 0.3))[k := Some 1]"
    using assms(2) len
    by (simp add: svg1 nodes_after_set_own length_set_all_rects nodes_after_set_all)
  have c1: "consistent nodes w1"
    using handle_ok [OF assms(1) c, of "NodeMouseEnter k"] h1 by simp
  have len1: "length (node_groups (svg w1)) = length nodes" by (rule consistent_length [OF c1])
  define w2 where "w2 = setHoveredNode None (w1\<lparr>svg := set_all_rects 0.85 (svg w1)\<rparr>)"
  have h2: "handle c nodes links w1 (NodeMouseLeave k) = Inr w2"
    using assms(2) len1 by (simp add: w2_def)
  have svg2: "svg w2 = set_all_rects 0.85 (svg w1)"
    by (simp add: w2_def setHoveredNode_def)
  have l2: "map (\<lambda>r. (rect_fill r, rect_opacity r)) (legend_rects (svg w2))
       = map (\<lambda>col. (col, Some 0.85)) legend_colors"
    using consistent_legend [OF c1, of "Some (0.85::real)"]
    by (simp add: svg2 legend_after_set_all)
  have n2: "map (rect_opacity \<circ> g_rect) (node_groups (svg w2))
       = replicate (length nodes) (Some 0.85)"
    using len1 by (simp add: svg2 nodes_after_set_all)
  from m l0 s h1 l1 n1 h2 l2 n2 show ?thesis by blast
qed

theorem hover_dims_every_rect_witness:
  "mount canvas_src nodes_demo links_demo \<noteq> Inl TypeError \<and> 0 < length nodes_demo \<and>
   (\<exists>w w1 w2.
     session canvas_src nodes_demo links_demo [] = Inr w \<and>
     handle canvas_src nodes_demo links_demo w (NodeMouseEnter 0) = Inr w1 \<and>
     handle canvas_src nodes_demo links_demo w1 (NodeMouseLeave 0) = Inr w2 \<and>
     map (\<lambda>r. (rect_fill r, rect_opacity r)) (legend_rects (svg w2))
       = map (\<lambda>col. (col, Some 0.85)) legend_colors)"
  using hover_dims_every_rect [OF mount_demo length_nodes_demo(1), of "[]"]
    mount_demo length_nodes_demo(1)
  by blast

end
